theory Spec2Isabelle
  imports Main "HOL-Library.Word" "HOL-Library.Product_Lexorder" "HOL-Library.Multiset"
begin

section \<open>Data model (src/src/App.tsx, lines 36-55)\<close>

text \<open>
  A JavaScript string is a sequence of UTF-16 code units; \<open>length\<close> and every offset
  count code units.  Offsets and timestamps are the integer-valued numbers of the source.
\<close>

type_synonym code_unit = "16 word"
type_synonym jsstring = "code_unit list"

datatype HighlightColor = Pink | Orange | Yellow | Green | Blue | Purple

record Anchor =
  text_a :: jsstring
  prefix_a :: "jsstring option"
  suffix_a :: "jsstring option"

record Highlight =
  id_h :: string
  createdAt :: int
  color :: HighlightColor
  start :: int
  end_h :: int
  anchor :: Anchor

section \<open>Text range utilities\<close>

text \<open>\<open>clamp(n, min, max)\<close>, line 158: \<open>Math.max(min, Math.min(max, n))\<close>.\<close>

definition clamp :: "int \<Rightarrow> int \<Rightarrow> int \<Rightarrow> int" where
  "clamp n mn mx = max mn (min mx n)"

text \<open>
  \<open>String.prototype.slice(a, b)\<close>: a negative index counts from the end, both indices
  are cut to \<open>[0, length]\<close>, and an inverted pair gives the empty string.
\<close>

definition slice :: "'a list \<Rightarrow> int \<Rightarrow> int \<Rightarrow> 'a list" where
  "slice t a b =
     (let len = int (length t);
          k_from = (if a < 0 then max (len + a) 0 else min a len);
          k_to = (if b < 0 then max (len + b) 0 else min b len)
      in take (nat (k_to - k_from)) (drop (nat k_from) t))"

section \<open>Highlight reconciler (lines 174-235)\<close>

text \<open>The common-prefix loop of lines 183-184, started at \<open>p = 0\<close>.\<close>

function commonPrefix :: "'a list \<Rightarrow> 'a list \<Rightarrow> nat \<Rightarrow> nat" where
  "commonPrefix oldText newText p =
     (if p < length oldText \<and> p < length newText \<and> oldText ! p = newText ! p
      then commonPrefix oldText newText (p + 1) else p)"
  by pat_completeness auto
termination
  by (relation "measure (\<lambda>(oldText, newText, p). length oldText - p)") auto

text \<open>The common-suffix loop of lines 187-194, started at \<open>s = 0\<close>; it never crosses the prefix.\<close>

function commonSuffix :: "'a list \<Rightarrow> 'a list \<Rightarrow> nat \<Rightarrow> nat \<Rightarrow> nat" where
  "commonSuffix oldText newText p s =
     (if s < length oldText - p \<and> s < length newText - p \<and>
         oldText ! (length oldText - 1 - s) = newText ! (length newText - 1 - s)
      then commonSuffix oldText newText p (s + 1) else s)"
  by pat_completeness auto
termination
  by (relation "measure (\<lambda>(oldText, newText, p, s). length oldText - p - s)") auto

declare commonPrefix.simps [simp del]
declare commonSuffix.simps [simp del]

definition prefixLen :: "'a list \<Rightarrow> 'a list \<Rightarrow> nat" where
  "prefixLen oldText newText = commonPrefix oldText newText 0"

definition suffixLen :: "'a list \<Rightarrow> 'a list \<Rightarrow> nat" where
  "suffixLen oldText newText = commonSuffix oldText newText (prefixLen oldText newText) 0"

definition oldMidStart :: "'a list \<Rightarrow> 'a list \<Rightarrow> int" where
  "oldMidStart oldText newText = int (prefixLen oldText newText)"

definition oldMidEnd :: "'a list \<Rightarrow> 'a list \<Rightarrow> int" where
  "oldMidEnd oldText newText = int (length oldText) - int (suffixLen oldText newText)"

definition newMidStart :: "'a list \<Rightarrow> 'a list \<Rightarrow> int" where
  "newMidStart oldText newText = int (prefixLen oldText newText)"

definition newMidEnd :: "'a list \<Rightarrow> 'a list \<Rightarrow> int" where
  "newMidEnd oldText newText = int (length newText) - int (suffixLen oldText newText)"

definition delta :: "'a list \<Rightarrow> 'a list \<Rightarrow> int" where
  "delta oldText newText =
     newMidEnd oldText newText - newMidStart oldText newText
       - (oldMidEnd oldText newText - oldMidStart oldText newText)"

text \<open>\<open>shiftIndex\<close>, lines 203-210.\<close>

definition shiftIndex :: "'a list \<Rightarrow> 'a list \<Rightarrow> int \<Rightarrow> int" where
  "shiftIndex oldText newText i =
     (if i \<le> oldMidStart oldText newText then i
      else if i \<ge> oldMidEnd oldText newText then i + delta oldText newText
      else (let rel = i - oldMidStart oldText newText
            in clamp (newMidStart oldText newText + rel)
                 (newMidStart oldText newText) (newMidEnd oldText newText)))"

text \<open>The anchor snapshot taken at lines 225-229 and again at lines 632-636.\<close>

definition makeAnchor :: "jsstring \<Rightarrow> int \<Rightarrow> int \<Rightarrow> Anchor" where
  "makeAnchor t s e =
     \<lparr> text_a = slice t s e,
       prefix_a = Some (slice t (max 0 (s - 16)) s),
       suffix_a = Some (slice t e (min (int (length t)) (e + 16))) \<rparr>"

text \<open>The body of the \<open>map\<close> callback, lines 212-231; \<open>None\<close> is the source's \<open>null\<close>.\<close>

definition shiftHighlight :: "jsstring \<Rightarrow> jsstring \<Rightarrow> Highlight \<Rightarrow> Highlight option" where
  "shiftHighlight oldText newText h =
     (let newLen = int (length newText);
          ns = shiftIndex oldText newText (start h);
          ne = shiftIndex oldText newText (end_h h);
          s = clamp (min ns ne) 0 newLen;
          e = clamp (max ns ne) 0 newLen
      in if e \<le> s then None
         else Some (h\<lparr> start := s, end_h := e, anchor := makeAnchor newText s e \<rparr>))"

definition reconcileHighlightsAfterEdit ::
    "jsstring \<Rightarrow> jsstring \<Rightarrow> Highlight list \<Rightarrow> Highlight list" where
  "reconcileHighlightsAfterEdit oldText newText oldHighlights =
     (let shifted = map (shiftHighlight oldText newText) oldHighlights
      in map the (filter (\<lambda>x. x \<noteq> None) shifted))"

section \<open>Highlight merge engine (\<open>onApplyHighlight\<close>, lines 577-649)\<close>

text \<open>The comparator handed to \<open>sort\<close> at lines 641-644.\<close>

definition compareHighlights :: "Highlight \<Rightarrow> Highlight \<Rightarrow> int" where
  "compareHighlights a b2 =
     (if start a \<noteq> start b2 then start a - start b2 else end_h a - end_h b2)"

text \<open>
  \<open>Array.prototype.sort\<close> is stable; with the comparator above it orders by the pair
  \<open>(start, end)\<close>, which is what the stable insertion sort \<open>sort_key\<close> does.
\<close>

definition sortHighlights :: "Highlight list \<Rightarrow> Highlight list" where
  "sortHighlights hs = sort_key (\<lambda>h. (start h, end_h h)) hs"

text \<open>
  The callback applied to the chapter whose id is \<open>chapterId\<close> (lines 592-645), as a
  function of that chapter's transcript \<open>t\<close> and highlights \<open>existing\<close>; the result is
  the chapter's new highlight list (the chapter is returned as it is on the no-op paths).
  \<open>newId\<close> stands for the value of \<open>uid('hl')\<close> and \<open>now\<close> for \<open>Date.now()\<close>.
  A missing colour falls back to pink (line 584).
\<close>

definition onApplyHighlight ::
    "jsstring \<Rightarrow> Highlight list \<Rightarrow> int \<Rightarrow> int \<Rightarrow> HighlightColor option \<Rightarrow> string \<Rightarrow> int
       \<Rightarrow> Highlight list" where
  "onApplyHighlight t existing st en col newId now =
     (let chosenColor = (case col of None \<Rightarrow> Pink | Some c \<Rightarrow> c);
          s = clamp (min st en) 0 (int (length t));
          e2 = clamp (max st en) 0 (int (length t))
      in if e2 \<le> s then existing
         else if list_ex (\<lambda>h. start h = s \<and> end_h h = e2 \<and> color h = chosenColor) existing
         then existing
         else
          (let sameColorOverlaps =
                 filter (\<lambda>h. color h = chosenColor \<and> \<not> (end_h h \<le> s \<or> start h \<ge> e2)) existing;
               keep =
                 filter (\<lambda>h. if color h \<noteq> chosenColor then True
                              else end_h h \<le> s \<or> start h \<ge> e2) existing;
               mergedStart =
                 (if length sameColorOverlaps \<noteq> 0
                  then fold min (map start sameColorOverlaps) s else s);
               mergedEnd =
                 (if length sameColorOverlaps \<noteq> 0
                  then fold max (map end_h sameColorOverlaps) e2 else e2);
               toAdd = \<lparr> id_h = newId, createdAt = now, color = chosenColor,
                         start = mergedStart, end_h = mergedEnd,
                         anchor = makeAnchor t mergedStart mergedEnd \<rparr>
           in sortHighlights (keep @ [toAdd])))"

section \<open>Render segmenter (\<open>renderedTranscript\<close>, lines 2500-2637)\<close>

record SearchRange =
  start_r :: int
  end_r :: int
  hit :: int

record Segment =
  seg_a :: int
  seg_b :: int
  seg_slice :: jsstring
  seg_highlight :: "Highlight option"
  seg_search :: "SearchRange option"

text \<open>Step 1, lines 2505-2518: clamp, drop the empty ones, sort by start and age.\<close>

definition normalizeHighlights :: "int \<Rightarrow> Highlight list \<Rightarrow> Highlight list" where
  "normalizeHighlights len highlights =
     (let mapped = map (\<lambda>h. let s = clamp (start h) 0 len; e = clamp (end_h h) 0 len
                             in if e \<le> s then None else Some (h\<lparr> start := s, end_h := e \<rparr>))
                       highlights;
          hs = map the (filter (\<lambda>x. x \<noteq> None) mapped)
      in sort_key (\<lambda>h. (start h, createdAt h)) hs)"

text \<open>
  Step 2, lines 2522-2539.  The regular-expression matches are an input: each is the pair
  of \<open>m.index\<close> and the length of the matched text, in the order \<open>matchAll\<close> yields them
  (none when the needle is empty).
\<close>

fun collectSearchRanges :: "int \<Rightarrow> (int \<times> int) list \<Rightarrow> int \<Rightarrow> SearchRange list" where
  "collectSearchRanges len [] hitNo = []"
| "collectSearchRanges len ((idx, mlen) # ms) hitNo =
     (let s = idx; e = s + mlen
      in if e > s
         then \<lparr> start_r = clamp s 0 len, end_r = clamp e 0 len, hit = hitNo \<rparr>
              # (if hitNo + 1 \<ge> 80 then [] else collectSearchRanges len ms (hitNo + 1))
         else (if hitNo \<ge> 80 then [] else collectSearchRanges len ms hitNo))"

text \<open>Step 3, lines 2542-2553: the boundary set, as a sorted array without duplicates.\<close>

definition boundsList :: "int \<Rightarrow> Highlight list \<Rightarrow> SearchRange list \<Rightarrow> int list" where
  "boundsList len hs searchRanges =
     0 # len # concat (map (\<lambda>h. [start h, end_h h]) hs)
       @ concat (map (\<lambda>r. [start_r r, end_r r]) searchRanges)"

definition points :: "int \<Rightarrow> Highlight list \<Rightarrow> SearchRange list \<Rightarrow> int list" where
  "points len hs searchRanges = sort (remdups (boundsList len hs searchRanges))"

text \<open>\<open>topHighlightFor\<close>, lines 2569-2577.\<close>

definition topHighlightFor :: "Highlight list \<Rightarrow> int \<Rightarrow> int \<Rightarrow> Highlight option" where
  "topHighlightFor hs a b =
     (let covering = filter (\<lambda>h. start h < b \<and> end_h h > a) hs
      in case covering of
           [] \<Rightarrow> None
         | c0 # _ \<Rightarrow>
             Some (fold (\<lambda>h best. if createdAt h > createdAt best then h else best) covering c0))"

text \<open>\<open>searchFor\<close>, lines 2579-2582.\<close>

definition searchFor :: "SearchRange list \<Rightarrow> int \<Rightarrow> int \<Rightarrow> SearchRange option" where
  "searchFor searchRanges a b = find (\<lambda>x. start_r x < b \<and> end_r x > a) searchRanges"

text \<open>The loop of lines 2586-2634 over adjacent boundary pairs.\<close>

fun segmentLoop ::
    "jsstring \<Rightarrow> Highlight list \<Rightarrow> SearchRange list \<Rightarrow> int list \<Rightarrow> Segment list" where
  "segmentLoop txt hs searchRanges (a # b # rest) =
     (if b \<le> a then segmentLoop txt hs searchRanges (b # rest)
      else if slice txt a b = [] then segmentLoop txt hs searchRanges (b # rest)
      else \<lparr> seg_a = a, seg_b = b, seg_slice = slice txt a b,
             seg_highlight = topHighlightFor hs a b,
             seg_search = searchFor searchRanges a b \<rparr>
           # segmentLoop txt hs searchRanges (b # rest))"
| "segmentLoop txt hs searchRanges [a] = []"
| "segmentLoop txt hs searchRanges [] = []"

text \<open>
  The whole computation.  With at most two boundary points the source returns the text as
  one plain node (line 2554): one segment with neither highlight nor search mark.
\<close>

definition renderedTranscript ::
    "jsstring \<Rightarrow> Highlight list \<Rightarrow> (int \<times> int) list \<Rightarrow> Segment list" where
  "renderedTranscript txt highlights matches =
     (let len = int (length txt);
          hs = normalizeHighlights len highlights;
          searchRanges = collectSearchRanges len matches 0;
          pts = points len hs searchRanges
      in if length pts \<le> 2
         then [\<lparr> seg_a = 0, seg_b = len, seg_slice = txt,
                  seg_highlight = None, seg_search = None \<rparr>]
         else segmentLoop txt hs searchRanges pts)"

section \<open>Auxiliary notions for the reconciler\<close>

text \<open>
  \<open>sameSpan oldText newText h h'\<close>: \<open>h'\<close> is the highlight \<open>h\<close> (same id, creation time and
  colour) and the text it spans in \<open>newText\<close> is the text \<open>h\<close> spans in \<open>oldText\<close>.
\<close>

definition sameSpan :: "jsstring \<Rightarrow> jsstring \<Rightarrow> Highlight \<Rightarrow> Highlight \<Rightarrow> bool" where
  "sameSpan oldText newText h h' =
     (id_h h' = id_h h \<and> createdAt h' = createdAt h \<and> color h' = color h
      \<and> slice newText (start h') (end_h h') = slice oldText (start h) (end_h h))"

section \<open>Auxiliary notions for the merge engine\<close>

text \<open>
  Names for the parts of \<open>onApplyHighlight\<close>: the colour actually used, the filter
  predicate of lines 608-610 (whose negation is the predicate of lines 613-616), the record
  \<open>toAdd\<close> of lines 618-637 and the test \<open>alreadyExists\<close> of lines 600-602.
  Lemma \<open>onApplyHighlight_unfold\<close> below shows that the function is built from them.
\<close>

definition chosen :: "HighlightColor option \<Rightarrow> HighlightColor" where
  "chosen col = (case col of None \<Rightarrow> Pink | Some c \<Rightarrow> c)"

definition overlapsRequest :: "HighlightColor \<Rightarrow> int \<Rightarrow> int \<Rightarrow> Highlight \<Rightarrow> bool" where
  "overlapsRequest c s e2 h = (color h = c \<and> \<not> (end_h h \<le> s \<or> start h \<ge> e2))"

definition mergedHighlight ::
  "jsstring \<Rightarrow> Highlight list \<Rightarrow> HighlightColor \<Rightarrow> int \<Rightarrow> int \<Rightarrow> string \<Rightarrow> int \<Rightarrow> Highlight" where
  "mergedHighlight t existing c s e2 newId now =
     (let ov = filter (overlapsRequest c s e2) existing;
          ms = fold min (map start ov) s;
          me = fold max (map end_h ov) e2
      in \<lparr> id_h = newId, createdAt = now, color = c, start = ms, end_h = me,
           anchor = makeAnchor t ms me \<rparr>)"

definition alreadyExists :: "Highlight list \<Rightarrow> HighlightColor \<Rightarrow> int \<Rightarrow> int \<Rightarrow> bool" where
  "alreadyExists existing c s e2 = list_ex (\<lambda>h. start h = s \<and> end_h h = e2 \<and> color h = c) existing"

text \<open>A highlight without its identity: the id and the creation time are blanked.\<close>

definition forget :: "Highlight \<Rightarrow> Highlight" where
  "forget h = h\<lparr> id_h := [], createdAt := 0 \<rparr>"

text \<open>
  Two half-open ranges strictly overlap when they share an offset, that is when the larger
  start lies before the smaller end.  The invariant of the merge engine: no two entries of
  the list (at different positions) have the same colour and strictly overlapping ranges.
\<close>

definition rangesOverlap :: "Highlight \<Rightarrow> Highlight \<Rightarrow> bool" where
  "rangesOverlap g h = (max (start g) (start h) < min (end_h g) (end_h h))"

definition sameColorOverlap :: "Highlight \<Rightarrow> Highlight \<Rightarrow> bool" where
  "sameColorOverlap g h = (color g = color h \<and> rangesOverlap g h)"

definition noSameColorOverlap :: "Highlight list \<Rightarrow> bool" where
  "noSameColorOverlap hs = sorted_wrt (\<lambda>g h. \<not> sameColorOverlap g h) hs"

section \<open>Auxiliary notions for the render segmenter\<close>

text \<open>
  \<open>tiles txt a b gs\<close>: the segments \<open>gs\<close> partition \<open>[a, b)\<close> from left to right, each
  starting where the one before it ends, and each carries the slice of \<open>txt\<close> at its range.
\<close>

fun tiles :: "jsstring \<Rightarrow> int \<Rightarrow> int \<Rightarrow> Segment list \<Rightarrow> bool" where
  "tiles txt a b [] = (a = b)"
| "tiles txt a b (g # gs) =
     (seg_a g = a \<and> a \<le> seg_b g \<and> seg_slice g = slice txt a (seg_b g) \<and> tiles txt (seg_b g) b gs)"

section \<open>Examples used below\<close>

definition mkHighlight :: "string \<Rightarrow> int \<Rightarrow> HighlightColor \<Rightarrow> int \<Rightarrow> int \<Rightarrow> Highlight" where
  "mkHighlight i c col s e =
     \<lparr> id_h = i, createdAt = c, color = col, start = s, end_h = e,
       anchor = \<lparr> text_a = [], prefix_a = None, suffix_a = None \<rparr> \<rparr>"

text \<open>The code units of "ABCDEFGHIJ" and of "XYABCDEFGHIJ" (scenario 7 of the specification).\<close>

definition txt_A_J :: jsstring where
  "txt_A_J = [0x41, 0x42, 0x43, 0x44, 0x45, 0x46, 0x47, 0x48, 0x49, 0x4A]"

definition txt_XY_A_J :: jsstring where
  "txt_XY_A_J = [0x58, 0x59, 0x41, 0x42, 0x43, 0x44, 0x45, 0x46, 0x47, 0x48, 0x49, 0x4A]"

text \<open>The code units of "XY", "XaY", "abX" and "ababX".\<close>

definition txt_XY :: jsstring where "txt_XY = [0x58, 0x59]"

definition txt_XaY :: jsstring where "txt_XaY = [0x58, 0x61, 0x59]"

definition txt_abX :: jsstring where "txt_abX = [0x61, 0x62, 0x58]"

definition txt_ababX :: jsstring where "txt_ababX = [0x61, 0x62, 0x61, 0x62, 0x58]"

section \<open>Facts about the prefix and suffix loops\<close>

lemma commonPrefix_ge: "p \<le> commonPrefix oldText newText p"
proof (induction oldText newText p rule: commonPrefix.induct)
  case (1 oldText newText p)
  show ?case
    using "1" by (subst commonPrefix.simps) (auto split: if_splits)
qed

lemma commonPrefix_le:
  "p \<le> length oldText \<Longrightarrow> p \<le> length newText \<Longrightarrow>
   commonPrefix oldText newText p \<le> length oldText \<and>
   commonPrefix oldText newText p \<le> length newText"
proof (induction oldText newText p rule: commonPrefix.induct)
  case (1 oldText newText p)
  show ?case
    using "1" by (subst (1 2) commonPrefix.simps) (auto split: if_splits)
qed

lemma prefixLen_le:
  "prefixLen oldText newText \<le> length oldText" "prefixLen oldText newText \<le> length newText"
  using commonPrefix_le [of 0 oldText newText] by (simp_all add: prefixLen_def)

lemma commonSuffix_le:
  "p \<le> length oldText \<Longrightarrow> p \<le> length newText \<Longrightarrow>
   s \<le> length oldText - p \<Longrightarrow> s \<le> length newText - p \<Longrightarrow>
   commonSuffix oldText newText p s \<le> length oldText - p \<and>
   commonSuffix oldText newText p s \<le> length newText - p"
proof (induction oldText newText p s rule: commonSuffix.induct)
  case (1 oldText newText p s)
  show ?case
    using "1" by (subst (1 2) commonSuffix.simps) (auto split: if_splits)
qed

lemma suffixLen_le:
  "suffixLen oldText newText \<le> length oldText - prefixLen oldText newText"
  "suffixLen oldText newText \<le> length newText - prefixLen oldText newText"
  using commonSuffix_le [of "prefixLen oldText newText" oldText newText 0] prefixLen_le [of oldText newText]
  by (simp_all add: suffixLen_def)

lemma mid_order:
  "0 \<le> oldMidStart oldText newText"
  "oldMidStart oldText newText \<le> oldMidEnd oldText newText"
  "oldMidEnd oldText newText \<le> int (length oldText)"
  "newMidStart oldText newText \<le> newMidEnd oldText newText"
  "newMidEnd oldText newText \<le> int (length newText)"
  using suffixLen_le [of oldText newText] prefixLen_le [of oldText newText]
  by (simp_all add: oldMidStart_def oldMidEnd_def newMidStart_def newMidEnd_def)

lemma commonPrefix_same_aux:
  "oldText = newText \<Longrightarrow> p \<le> length oldText \<Longrightarrow>
   commonPrefix oldText newText p = length oldText"
proof (induction oldText newText p rule: commonPrefix.induct)
  case (1 oldText newText p)
  show ?case
    using "1" by (subst commonPrefix.simps) (auto split: if_splits)
qed

lemma prefixLen_same: "prefixLen t t = length t"
  by (simp add: prefixLen_def commonPrefix_same_aux)

lemma suffixLen_same: "suffixLen t t = 0"
  by (simp add: suffixLen_def prefixLen_same commonSuffix.simps)

lemma shiftIndex_same: "i \<le> int (length t) \<Longrightarrow> shiftIndex t t i = i"
  by (simp add: shiftIndex_def oldMidStart_def prefixLen_same)

lemma shiftHighlight_same:
  assumes "0 \<le> start h" "start h < end_h h" "end_h h \<le> int (length t)"
  shows "shiftHighlight t t h = Some (h\<lparr> anchor := makeAnchor t (start h) (end_h h) \<rparr>)"
  using assms by (simp add: shiftHighlight_def shiftIndex_same clamp_def Let_def)

lemma reconcile_map_filter:
  "reconcileHighlightsAfterEdit oldText newText hs
     = List.map_filter (shiftHighlight oldText newText) hs"
  by (induction hs) (auto simp: reconcileHighlightsAfterEdit_def List.map_filter_def Let_def)

lemma commonPrefix_shared_aux:
  "oldText = A @ X \<Longrightarrow> newText = A @ Y \<Longrightarrow> p \<le> length A \<Longrightarrow>
   length A \<le> commonPrefix oldText newText p"
proof (induction oldText newText p rule: commonPrefix.induct)
  case (1 oldText newText p)
  show ?case
  proof (cases "p < length A")
    case True
    with "1.prems" have c: "p < length oldText \<and> p < length newText \<and> oldText ! p = newText ! p"
      by (simp add: nth_append)
    with "1.IH" "1.prems" True have "length A \<le> commonPrefix oldText newText (p + 1)" by simp
    with c show ?thesis by (subst commonPrefix.simps) simp
  next
    case False
    with "1.prems" have "p = length A" by simp
    with commonPrefix_ge [of p oldText newText] show ?thesis by simp
  qed
qed

lemma prefixLen_shared: "length A \<le> prefixLen (A @ X) (A @ Y)"
  unfolding prefixLen_def by (rule commonPrefix_shared_aux [OF refl refl]) simp

lemma commonSuffix_ge: "s \<le> commonSuffix oldText newText p s"
proof (induction oldText newText p s rule: commonSuffix.induct)
  case (1 oldText newText p s)
  show ?case
    using "1" by (subst commonSuffix.simps) (auto split: if_splits)
qed

lemma commonSuffix_shared_aux:
  "oldText = X @ B \<Longrightarrow> newText = Y @ B \<Longrightarrow> p \<le> length X \<Longrightarrow> p \<le> length Y \<Longrightarrow>
   s \<le> length B \<Longrightarrow> length B \<le> commonSuffix oldText newText p s"
proof (induction oldText newText p s rule: commonSuffix.induct)
  case (1 oldText newText p s)
  show ?case
  proof (cases "s < length B")
    case True
    with "1.prems" have i: "length oldText - 1 - s = length X + (length B - 1 - s)"
      "length newText - 1 - s = length Y + (length B - 1 - s)" by simp_all
    from True "1.prems" have b: "s < length oldText - p" "s < length newText - p" by simp_all
    have "oldText ! (length X + (length B - 1 - s)) = B ! (length B - 1 - s)"
      unfolding "1.prems"(1) by (rule nth_append_length_plus)
    then have "oldText ! (length oldText - 1 - s) = B ! (length B - 1 - s)"
      by (simp only: i(1))
    moreover have "newText ! (length Y + (length B - 1 - s)) = B ! (length B - 1 - s)"
      unfolding "1.prems"(2) by (rule nth_append_length_plus)
    then have "newText ! (length newText - 1 - s) = B ! (length B - 1 - s)"
      by (simp only: i(2))
    ultimately have c: "s < length oldText - p \<and> s < length newText - p \<and>
         oldText ! (length oldText - 1 - s) = newText ! (length newText - 1 - s)"
      using b by simp
    with "1.IH" "1.prems" True have "length B \<le> commonSuffix oldText newText p (s + 1)" by simp
    with c show ?thesis by (subst commonSuffix.simps) simp
  next
    case False
    with "1.prems" have "s = length B" by simp
    with commonSuffix_ge [of s oldText newText p] show ?thesis by simp
  qed
qed

lemma suffixLen_shared:
  assumes "prefixLen (A @ M @ B) (A @ M' @ B) = length A"
  shows "length B \<le> suffixLen (A @ M @ B) (A @ M' @ B)"
proof -
  have "length B \<le> commonSuffix ((A @ M) @ B) ((A @ M') @ B) (length A) 0"
    by (rule commonSuffix_shared_aux [OF refl refl]) simp_all
  then show ?thesis by (simp add: suffixLen_def assms)
qed

lemma slice_append_left:
  assumes "0 \<le> a" "a \<le> b" "b \<le> int (length A)"
  shows "slice (A @ X) a b = slice A a b"
  using assms by (simp add: slice_def min_def)

lemma slice_append_right:
  assumes "int (length X) \<le> a" "a \<le> b"
  shows "slice (X @ B) a b = slice B (a - int (length X)) (b - int (length X))"
proof -
  let ?L = "int (length X) + int (length B)"
  have d: "nat (min a ?L) = length X + nat (min (a - int (length X)) (int (length B)))"
    using assms by (simp add: min_def) linarith
  have "min b ?L - min a ?L
        = min (b - int (length X)) (int (length B)) - min (a - int (length X)) (int (length B))"
    using assms by linarith
  then have n: "nat (min b ?L - min a ?L)
        = nat (min (b - int (length X)) (int (length B)) - min (a - int (length X)) (int (length B)))"
    by simp
  have "slice (X @ B) a b = take (nat (min b ?L - min a ?L)) (drop (nat (min a ?L)) (X @ B))"
    using assms by (simp add: slice_def Let_def)
  also have "\<dots> = take (nat (min b ?L - min a ?L))
                     (drop (nat (min (a - int (length X)) (int (length B)))) B)"
    unfolding d by simp
  also have "\<dots> = slice B (a - int (length X)) (b - int (length X))"
    unfolding n using assms by (simp add: slice_def Let_def)
  finally show ?thesis .
qed

lemma reconcile_all_Some:
  "(\<forall>h \<in> set hs. shiftHighlight oldText newText h = Some (f h)) \<Longrightarrow>
   reconcileHighlightsAfterEdit oldText newText hs = map f hs"
  by (induction hs) (simp_all add: reconcile_map_filter List.map_filter_def)

lemma shiftHighlight_by:
  assumes "shiftIndex oldText newText (start h) = start h + d"
    and "shiftIndex oldText newText (end_h h) = end_h h + d"
    and "0 \<le> start h + d" "start h < end_h h" "end_h h + d \<le> int (length newText)"
  shows "shiftHighlight oldText newText h
           = Some (h\<lparr> start := start h + d, end_h := end_h h + d,
                      anchor := makeAnchor newText (start h + d) (end_h h + d) \<rparr>)"
  using assms by (simp add: shiftHighlight_def Let_def clamp_def)

lemma shift_before_edit:
  assumes "0 \<le> start h" "start h < end_h h" "end_h h \<le> int (length A)"
  shows "shiftHighlight (A @ X) (A @ Y) h
           = Some (h\<lparr> start := start h + 0, end_h := end_h h + 0,
                      anchor := makeAnchor (A @ Y) (start h + 0) (end_h h + 0) \<rparr>)"
    and "slice (A @ Y) (start h) (end_h h) = slice (A @ X) (start h) (end_h h)"
proof -
  have p: "int (length A) \<le> oldMidStart (A @ X) (A @ Y)"
    using prefixLen_shared [of A X Y] by (simp add: oldMidStart_def)
  with assms have "shiftIndex (A @ X) (A @ Y) (start h) = start h + 0"
    "shiftIndex (A @ X) (A @ Y) (end_h h) = end_h h + 0"
    by (simp_all add: shiftIndex_def)
  then show "shiftHighlight (A @ X) (A @ Y) h
           = Some (h\<lparr> start := start h + 0, end_h := end_h h + 0,
                      anchor := makeAnchor (A @ Y) (start h + 0) (end_h h + 0) \<rparr>)"
    by (rule shiftHighlight_by) (use assms in simp_all)
  from assms show "slice (A @ Y) (start h) (end_h h) = slice (A @ X) (start h) (end_h h)"
    by (simp add: slice_append_left)
qed

lemma shift_after_edit:
  assumes p: "prefixLen (A @ M @ B) (A @ M' @ B) = length A"
    and h: "int (length A) < start h" "int (length A) + int (length M) \<le> start h"
      "start h < end_h h" "end_h h \<le> int (length (A @ M @ B))"
  defines "d \<equiv> int (length M') - int (length M)"
  shows "shiftHighlight (A @ M @ B) (A @ M' @ B) h
           = Some (h\<lparr> start := start h + d, end_h := end_h h + d,
                      anchor := makeAnchor (A @ M' @ B) (start h + d) (end_h h + d) \<rparr>)"
    and "slice (A @ M' @ B) (start h + d) (end_h h + d) = slice (A @ M @ B) (start h) (end_h h)"
proof -
  let ?old = "A @ M @ B" and ?new = "A @ M' @ B"
  have s: "length B \<le> suffixLen ?old ?new" by (rule suffixLen_shared [OF p])
  have oms: "oldMidStart ?old ?new = int (length A)" by (simp add: oldMidStart_def p)
  have ome: "oldMidEnd ?old ?new \<le> int (length A) + int (length M)"
    using s by (simp add: oldMidEnd_def)
  have dl: "delta ?old ?new = d"
    by (simp add: delta_def newMidEnd_def newMidStart_def oldMidEnd_def oldMidStart_def d_def)
  from h oms ome dl have "shiftIndex ?old ?new (start h) = start h + d"
    "shiftIndex ?old ?new (end_h h) = end_h h + d"
    by (simp_all add: shiftIndex_def)
  then show "shiftHighlight ?old ?new h
           = Some (h\<lparr> start := start h + d, end_h := end_h h + d,
                      anchor := makeAnchor ?new (start h + d) (end_h h + d) \<rparr>)"
    by (rule shiftHighlight_by) (use h in \<open>simp_all add: d_def\<close>)
  have "slice ((A @ M') @ B) (start h + d) (end_h h + d)
          = slice B (start h + d - int (length (A @ M'))) (end_h h + d - int (length (A @ M')))"
    by (rule slice_append_right) (use h in \<open>simp_all add: d_def\<close>)
  moreover have "slice ((A @ M) @ B) (start h) (end_h h)
          = slice B (start h - int (length (A @ M))) (end_h h - int (length (A @ M)))"
    by (rule slice_append_right) (use h in simp_all)
  moreover have "start h + d - int (length (A @ M')) = start h - int (length (A @ M))"
    "end_h h + d - int (length (A @ M')) = end_h h - int (length (A @ M))"
    by (simp_all add: d_def)
  ultimately have "slice ((A @ M') @ B) (start h + d) (end_h h + d)
                     = slice ((A @ M) @ B) (start h) (end_h h)"
    by (simp only:)
  then show "slice ?new (start h + d) (end_h h + d) = slice ?old (start h) (end_h h)"
    by simp
qed

lemmas reconcile_eval =
  reconcileHighlightsAfterEdit_def shiftHighlight_def shiftIndex_def makeAnchor_def slice_def
  oldMidStart_def oldMidEnd_def newMidStart_def newMidEnd_def delta_def clamp_def
  suffixLen_def prefixLen_def commonPrefix.simps commonSuffix.simps mkHighlight_def Let_def

section \<open>Facts about the merge engine\<close>

lemma compareHighlights_key:
  "compareHighlights a b2 \<le> 0 \<longleftrightarrow> (start a, end_h a) \<le> (start b2, end_h b2)"
  "compareHighlights a b2 = 0 \<longleftrightarrow> (start a, end_h a) = (start b2, end_h b2)"
  by (auto simp: compareHighlights_def less_eq_prod_def)

lemma rangesOverlap_nonempty:
  "start g < end_h g \<Longrightarrow> start h < end_h h \<Longrightarrow>
   rangesOverlap g h \<longleftrightarrow> \<not> (end_h h \<le> start g \<or> start h \<ge> end_h g)"
  by (auto simp: rangesOverlap_def)

lemma fold_min_le: "fold min xs (s::int) \<le> s"
proof (induction xs arbitrary: s)
  case Nil show ?case by simp
next
  case (Cons x xs)
  have "fold min xs (min x s) \<le> min x s" by (rule Cons)
  then show ?case by simp
qed

lemma fold_min_cases: "fold min xs (s::int) = s \<or> fold min xs s \<in> set xs"
proof (induction xs arbitrary: s)
  case Nil show ?case by simp
next
  case (Cons x xs)
  from Cons [of "min x s"] show ?case by (auto simp: min_def split: if_splits)
qed

lemma fold_max_ge: "(s::int) \<le> fold max xs s"
proof (induction xs arbitrary: s)
  case Nil show ?case by simp
next
  case (Cons x xs)
  have "max x s \<le> fold max xs (max x s)" by (rule Cons)
  then show ?case by simp
qed

lemma fold_max_cases: "fold max xs (s::int) = s \<or> fold max xs s \<in> set xs"
proof (induction xs arbitrary: s)
  case Nil show ?case by simp
next
  case (Cons x xs)
  from Cons [of "max x s"] show ?case by (auto simp: max_def split: if_splits)
qed

lemma onApplyHighlight_unfold:
  "onApplyHighlight t existing st en col newId now =
     (let c = chosen col;
          s = clamp (min st en) 0 (int (length t));
          e2 = clamp (max st en) 0 (int (length t))
      in if e2 \<le> s then existing
         else if alreadyExists existing c s e2 then existing
         else sortHighlights (filter (\<lambda>h. \<not> overlapsRequest c s e2 h) existing
                               @ [mergedHighlight t existing c s e2 newId now]))"
proof -
  have k: "\<And>c s e2. (\<lambda>h. if color h \<noteq> c then True else end_h h \<le> s \<or> start h \<ge> e2)
          = (\<lambda>h. \<not> overlapsRequest c s e2 h)"
    by (auto simp: overlapsRequest_def fun_eq_iff)
  have o: "\<And>c s e2. (\<lambda>h. color h = c \<and> \<not> (end_h h \<le> s \<or> start h \<ge> e2)) = overlapsRequest c s e2"
    by (auto simp: overlapsRequest_def fun_eq_iff)
  show ?thesis
    unfolding onApplyHighlight_def mergedHighlight_def chosen_def [symmetric] Let_def k o
      alreadyExists_def
    by auto
qed


lemma mergedHighlight_sel [simp]:
  "color (mergedHighlight t existing c s e2 newId now) = c"
  "id_h (mergedHighlight t existing c s e2 newId now) = newId"
  "createdAt (mergedHighlight t existing c s e2 newId now) = now"
  by (simp_all add: mergedHighlight_def Let_def)

lemma mergedHighlight_start_le: "start (mergedHighlight t existing c s e2 newId now) \<le> s"
  by (simp add: mergedHighlight_def Let_def fold_min_le)

lemma mergedHighlight_end_ge: "e2 \<le> end_h (mergedHighlight t existing c s e2 newId now)"
  by (simp add: mergedHighlight_def Let_def fold_max_ge)

lemma mergedHighlight_start_cases:
  "start (mergedHighlight t existing c s e2 newId now) = s
   \<or> (\<exists>h \<in> set existing. overlapsRequest c s e2 h
         \<and> start (mergedHighlight t existing c s e2 newId now) = start h)"
  using fold_min_cases [of "map start (filter (overlapsRequest c s e2) existing)" s]
  by (auto simp: mergedHighlight_def Let_def)

lemma mergedHighlight_end_cases:
  "end_h (mergedHighlight t existing c s e2 newId now) = e2
   \<or> (\<exists>h \<in> set existing. overlapsRequest c s e2 h
         \<and> end_h (mergedHighlight t existing c s e2 newId now) = end_h h)"
  using fold_max_cases [of "map end_h (filter (overlapsRequest c s e2) existing)" e2]
  by (auto simp: mergedHighlight_def Let_def)

lemma mset_sortHighlights [simp]: "mset (sortHighlights hs) = mset hs"
  by (simp add: sortHighlights_def)

lemma set_sortHighlights [simp]: "set (sortHighlights hs) = set hs"
  by (simp add: sortHighlights_def)

lemma filter_other_keep:
  "(\<lambda>h. \<not> overlapsRequest c s e2 h \<and> color h \<noteq> c) = (\<lambda>h. color h \<noteq> c)"
  by (auto simp: overlapsRequest_def fun_eq_iff)

lemma sameColorOverlap_sym: "sameColorOverlap g h = sameColorOverlap h g"
  by (auto simp: sameColorOverlap_def rangesOverlap_def max.commute min.commute)

lemma sameColorOverlap_symD: "sameColorOverlap g h \<Longrightarrow> sameColorOverlap h g"
  by (simp add: sameColorOverlap_sym)

lemma noSameColorOverlap_Cons:
  "noSameColorOverlap (h # hs) = ((\<forall>g \<in> set hs. \<not> sameColorOverlap h g) \<and> noSameColorOverlap hs)"
  by (simp add: noSameColorOverlap_def)

lemma noSameColorOverlap_insort:
  "noSameColorOverlap (insort_key k h hs)
     = ((\<forall>g \<in> set hs. \<not> sameColorOverlap h g) \<and> noSameColorOverlap hs)"
  by (induction hs) (auto simp: noSameColorOverlap_Cons set_insort_key dest: sameColorOverlap_symD)

lemma noSameColorOverlap_sort: "noSameColorOverlap (sort_key k hs) = noSameColorOverlap hs"
  by (induction hs) (simp_all add: noSameColorOverlap_insort noSameColorOverlap_Cons)

lemma noSameColorOverlap_snoc:
  "noSameColorOverlap (hs @ [h])
     = ((\<forall>g \<in> set hs. \<not> sameColorOverlap h g) \<and> noSameColorOverlap hs)"
  by (auto simp: noSameColorOverlap_def sorted_wrt_append dest: sameColorOverlap_symD)

lemma noSameColorOverlap_filter: "noSameColorOverlap hs \<Longrightarrow> noSameColorOverlap (filter P hs)"
  by (simp add: noSameColorOverlap_def sorted_wrt_filter)

lemma noSameColorOverlap_distinct_elems:
  "noSameColorOverlap hs \<Longrightarrow> g \<in> set hs \<Longrightarrow> h \<in> set hs \<Longrightarrow> g \<noteq> h \<Longrightarrow> \<not> sameColorOverlap g h"
  by (induction hs) (auto simp: noSameColorOverlap_Cons dest: sameColorOverlap_symD)

lemma merged_no_clash:
  assumes inv: "noSameColorOverlap existing"
    and g: "g \<in> set existing" "\<not> overlapsRequest c s e2 g"
    and se: "s < e2"
  shows "\<not> sameColorOverlap (mergedHighlight t existing c s e2 newId now) g"
proof
  let ?M = "mergedHighlight t existing c s e2 newId now"
  assume clash: "sameColorOverlap ?M g"
  then have col: "color g = c" and ov: "start ?M < end_h g" "start g < end_h ?M" "start g < end_h g"
    by (auto simp: sameColorOverlap_def rangesOverlap_def)
  from g col have side: "end_h g \<le> s \<or> e2 \<le> start g"
    by (auto simp: overlapsRequest_def)
  then show False
  proof
    assume l: "end_h g \<le> s"
    with ov have "start ?M \<noteq> s" by simp
    with mergedHighlight_start_cases [of t existing c s e2 newId now]
    obtain h where h: "h \<in> set existing" "overlapsRequest c s e2 h" "start ?M = start h"
      by blast
    from h g have "g \<noteq> h" by auto
    then have "\<not> sameColorOverlap g h"
      using noSameColorOverlap_distinct_elems [OF inv g(1) h(1)] by simp
    moreover from h col l ov have "sameColorOverlap g h"
      by (auto simp: sameColorOverlap_def rangesOverlap_def overlapsRequest_def)
    ultimately show False by simp
  next
    assume r: "e2 \<le> start g"
    with ov have "end_h ?M \<noteq> e2" by simp
    with mergedHighlight_end_cases [of t existing c s e2 newId now]
    obtain h where h: "h \<in> set existing" "overlapsRequest c s e2 h" "end_h ?M = end_h h"
      by blast
    from h g have "g \<noteq> h" by auto
    then have "\<not> sameColorOverlap g h"
      using noSameColorOverlap_distinct_elems [OF inv g(1) h(1)] by simp
    moreover from h col r ov have "sameColorOverlap g h"
      by (auto simp: sameColorOverlap_def rangesOverlap_def overlapsRequest_def)
    ultimately show False by simp
  qed
qed

lemma sort_key_sorted_prefix:
  fixes k :: "'a \<Rightarrow> 'b::linorder"
  shows "sort_key k (sort_key k xs @ ys) = sort_key k (xs @ ys)"
proof (rule properties_for_sort_key)
  show "mset (sort_key k (xs @ ys)) = mset (sort_key k xs @ ys)" by simp
  show "sorted (map k (sort_key k (xs @ ys)))" by simp
  fix x
  have "filter (\<lambda>y. k y = k x) (sort_key k (xs @ ys)) = filter (\<lambda>y. k y = k x) (sort_key k xs @ ys)"
    by (simp add: sort_key_stable)
  moreover have "(\<lambda>y. k y = k x) = (\<lambda>y. k x = k y)" by auto
  ultimately show "filter (\<lambda>y. k x = k y) (sort_key k (xs @ ys)) = filter (\<lambda>y. k x = k y) (sort_key k xs @ ys)"
    by simp
qed

lemma map_insort_key:
  assumes "\<And>x. k (g x) = k x"
  shows "map g (insort_key k x xs) = insort_key k (g x) (map g xs)"
  by (induction xs) (simp_all add: assms)

lemma map_sort_key:
  assumes "\<And>x. k (g x) = k x"
  shows "map g (sort_key k xs) = sort_key k (map g xs)"
  by (induction xs) (simp_all add: map_insort_key assms)

lemma map_forget_sortHighlights:
  "map forget (sortHighlights hs) = sortHighlights (map forget hs)"
  unfolding sortHighlights_def by (rule map_sort_key) (simp add: forget_def)

lemma forget_merged:
  "forget (mergedHighlight t existing c s e2 id1 now1) = forget (mergedHighlight t existing c s e2 id2 now2)"
  by (simp add: forget_def mergedHighlight_def Let_def)

lemma forget_once:
  "map forget (onApplyHighlight t existing st en col id1 now1)
     = map forget (onApplyHighlight t existing st en col id2 now2)"
  using forget_merged [of t existing "chosen col" "clamp (min st en) 0 (int (length t))"
                         "clamp (max st en) 0 (int (length t))" id1 now1 id2 now2]
  by (auto simp: onApplyHighlight_unfold Let_def map_forget_sortHighlights)

lemma overlapsRequest_merged:
  "s < e2 \<Longrightarrow> overlapsRequest c s e2 (mergedHighlight t existing c s e2 newId now)"
  using mergedHighlight_start_le [of t existing c s e2 newId now]
        mergedHighlight_end_ge [of e2 t existing c s newId now]
  by (simp add: overlapsRequest_def)

lemma filter_keep_result:
  assumes "s < e2"
  shows "filter (\<lambda>h. \<not> overlapsRequest c s e2 h)
           (sortHighlights (filter (\<lambda>h. \<not> overlapsRequest c s e2 h) existing
                             @ [mergedHighlight t existing c s e2 newId now]))
         = sortHighlights (filter (\<lambda>h. \<not> overlapsRequest c s e2 h) existing)"
  using overlapsRequest_merged [OF assms, of c t existing newId now]
  by (simp add: sortHighlights_def filter_sort)

lemma filter_overlaps_result:
  assumes "s < e2"
  shows "filter (overlapsRequest c s e2)
           (sortHighlights (filter (\<lambda>h. \<not> overlapsRequest c s e2 h) existing
                             @ [mergedHighlight t existing c s e2 newId now]))
         = [mergedHighlight t existing c s e2 newId now]"
  using overlapsRequest_merged [OF assms, of c t existing newId now]
  by (simp add: sortHighlights_def filter_sort)

lemma merged_again:
  assumes "s < e2"
  shows "mergedHighlight t
           (sortHighlights (filter (\<lambda>h. \<not> overlapsRequest c s e2 h) existing
                             @ [mergedHighlight t existing c s e2 id1 now1])) c s e2 id2 now2
         = mergedHighlight t existing c s e2 id2 now2"
proof -
  let ?M1 = "mergedHighlight t existing c s e2 id1 now1"
  define R where "R = sortHighlights (filter (\<lambda>h. \<not> overlapsRequest c s e2 h) existing @ [?M1])"
  have f: "filter (overlapsRequest c s e2) R = [?M1]"
    unfolding R_def by (rule filter_overlaps_result [OF assms])
  have a: "min (start ?M1) s = start ?M1" "max (end_h ?M1) e2 = end_h ?M1"
    using mergedHighlight_start_le [of t existing c s e2 id1 now1]
          mergedHighlight_end_ge [of e2 t existing c s id1 now1] by simp_all
  have b: "start ?M1 = start (mergedHighlight t existing c s e2 id2 now2)"
          "end_h ?M1 = end_h (mergedHighlight t existing c s e2 id2 now2)"
    by (simp_all add: mergedHighlight_def Let_def)
  have "mergedHighlight t R c s e2 id2 now2
          = \<lparr> id_h = id2, createdAt = now2, color = c, start = start ?M1, end_h = end_h ?M1,
              anchor = makeAnchor t (start ?M1) (end_h ?M1) \<rparr>"
    by (simp add: mergedHighlight_def [of t R] f a Let_def)
  also have "\<dots> = mergedHighlight t existing c s e2 id2 now2"
    unfolding b by (simp add: mergedHighlight_def Let_def)
  finally show ?thesis unfolding R_def .
qed

section \<open>Facts about the render segmenter\<close>

lemma slice_whole: "slice t 0 (int (length t)) = t"
  by (simp add: slice_def)

lemma slice_empty_iff:
  "0 \<le> a \<Longrightarrow> a < b \<Longrightarrow> b \<le> int (length t) \<Longrightarrow> slice t a b \<noteq> []"
  by (auto simp: slice_def)

lemma slice_append:
  assumes "0 \<le> a" "a \<le> b" "b \<le> c" "c \<le> int (length t)"
  shows "slice t a b @ slice t b c = slice t a c"
proof -
  have "take (nat (b - a)) (drop (nat a) t) @ take (nat (c - b)) (drop (nat b) t)
        = take (nat (c - a)) (drop (nat a) t)"
  proof -
    have "nat b = nat a + nat (b - a)" using assms by simp
    then have "drop (nat b) t = drop (nat (b - a)) (drop (nat a) t)"
      by (simp add: add.commute)
    moreover have "nat (c - a) = nat (b - a) + nat (c - b)" using assms by simp
    ultimately show ?thesis by (simp add: take_add)
  qed
  with assms show ?thesis by (simp add: slice_def min_def)
qed

lemma normalizeHighlights_range:
  assumes "h \<in> set (normalizeHighlights len highlights)" "0 \<le> len"
  shows "0 \<le> start h \<and> start h < end_h h \<and> end_h h \<le> len"
  using assms by (auto simp: normalizeHighlights_def Let_def clamp_def split: if_splits)

lemma collectSearchRanges_range:
  assumes "r \<in> set (collectSearchRanges len ms hitNo)" "0 \<le> len"
  shows "0 \<le> start_r r \<and> start_r r \<le> len \<and> 0 \<le> end_r r \<and> end_r r \<le> len"
  using assms
  by (induction len ms hitNo rule: collectSearchRanges.induct)
     (auto simp: Let_def clamp_def split: if_splits)

lemma boundsList_range:
  assumes "0 \<le> len"
    and "\<forall>h \<in> set hs. 0 \<le> start h \<and> end_h h \<le> len \<and> start h < end_h h"
    and "\<forall>r \<in> set srs. 0 \<le> start_r r \<and> start_r r \<le> len \<and> 0 \<le> end_r r \<and> end_r r \<le> len"
  shows "\<forall>x \<in> set (boundsList len hs srs). 0 \<le> x \<and> x \<le> len"
  using assms by (fastforce simp: boundsList_def)

lemma points_props:
  "sorted (points len hs srs)" "distinct (points len hs srs)"
  "set (points len hs srs) = set (boundsList len hs srs)"
  by (simp_all add: points_def)

lemma boundsList_ends:
  "0 \<in> set (boundsList len hs srs)" "len \<in> set (boundsList len hs srs)"
  unfolding boundsList_def by (simp_all del: set_concat)

lemma segmentLoop_tiles:
  assumes "sorted (a # rest)" "distinct (a # rest)" "0 \<le> a"
    and "\<forall>x \<in> set (a # rest). x \<le> int (length txt)" "int (length txt) \<in> set (a # rest)"
  shows "tiles txt a (int (length txt)) (segmentLoop txt hs srs (a # rest))
         \<and> concat (map seg_slice (segmentLoop txt hs srs (a # rest))) = slice txt a (int (length txt))
         \<and> (\<forall>g \<in> set (segmentLoop txt hs srs (a # rest)). seg_a g < seg_b g)"
  using assms
proof (induction rest arbitrary: a)
  case Nil
  then show ?case by (simp add: slice_def)
next
  case (Cons b rest)
  from Cons.prems have ab: "a < b" "b \<le> int (length txt)" by auto
  with Cons.prems have ne: "slice txt a b \<noteq> []" by (simp add: slice_empty_iff)
  from Cons.prems ab have "int (length txt) \<in> set (b # rest)" by auto
  with Cons.prems ab have IH:
    "tiles txt b (int (length txt)) (segmentLoop txt hs srs (b # rest))"
    "concat (map seg_slice (segmentLoop txt hs srs (b # rest))) = slice txt b (int (length txt))"
    "\<forall>g \<in> set (segmentLoop txt hs srs (b # rest)). seg_a g < seg_b g"
    using Cons.IH [of b] by auto
  from ab Cons.prems have "slice txt a b @ slice txt b (int (length txt)) = slice txt a (int (length txt))"
    by (intro slice_append) auto
  with ab ne IH show ?case by simp
qed


lemma tiles_ascending:
  assumes "tiles txt a b gs" "\<forall>g \<in> set gs. seg_a g < seg_b g"
  shows "sorted_wrt (<) (map seg_a gs) \<and> (\<forall>g \<in> set gs. a \<le> seg_a g)"
  using assms
proof (induction gs arbitrary: a)
  case Nil
  then show ?case by simp
next
  case (Cons g gs)
  from Cons.prems have t: "tiles txt (seg_b g) b gs" and p: "\<forall>g \<in> set gs. seg_a g < seg_b g"
    by simp_all
  from Cons.IH [OF t p] Cons.prems show ?case by fastforce
qed

lemma fold_best:
  "(fold (\<lambda>h best. if createdAt h > createdAt best then h else best) xs b0 = b0
      \<or> fold (\<lambda>h best. if createdAt h > createdAt best then h else best) xs b0 \<in> set xs)
   \<and> createdAt b0 \<le> createdAt (fold (\<lambda>h best. if createdAt h > createdAt best then h else best) xs b0)
   \<and> (\<forall>x \<in> set xs. createdAt x
          \<le> createdAt (fold (\<lambda>h best. if createdAt h > createdAt best then h else best) xs b0))"
proof (induction xs arbitrary: b0)
  case Nil
  show ?case by simp
next
  case (Cons x xs)
  from Cons [of "if createdAt x > createdAt b0 then x else b0"]
  show ?case by (auto split: if_splits)
qed

lemma topHighlightFor_None:
  "topHighlightFor hs a b = None \<longleftrightarrow> (\<forall>h \<in> set hs. \<not> (start h < b \<and> end_h h > a))"
proof -
  have "topHighlightFor hs a b = None \<longleftrightarrow> filter (\<lambda>h. start h < b \<and> end_h h > a) hs = []"
    by (simp add: topHighlightFor_def Let_def split: list.splits)
  then show ?thesis by (simp add: filter_empty_conv)
qed

lemma topHighlightFor_Some:
  assumes "topHighlightFor hs a b = Some h"
  shows "h \<in> set hs \<and> start h < b \<and> end_h h > a
         \<and> (\<forall>g \<in> set hs. start g < b \<and> end_h g > a \<longrightarrow> createdAt g \<le> createdAt h)"
proof -
  let ?cov = "filter (\<lambda>h. start h < b \<and> end_h h > a) hs"
  from assms obtain c0 cs where c: "?cov = c0 # cs"
    and h: "h = fold (\<lambda>h best. if createdAt h > createdAt best then h else best) ?cov c0"
    by (auto simp: topHighlightFor_def Let_def split: list.splits)
  have c0: "c0 \<in> set ?cov" by (simp add: c)
  from fold_best [of ?cov c0] c0 have "h \<in> set ?cov" "\<forall>x \<in> set ?cov. createdAt x \<le> createdAt h"
    unfolding h [symmetric] by auto
  then show ?thesis by auto
qed

lemma segmentLoop_marks:
  "g \<in> set (segmentLoop t hs srs ps) \<Longrightarrow>
   seg_highlight g = topHighlightFor hs (seg_a g) (seg_b g)
   \<and> seg_search g = searchFor srs (seg_a g) (seg_b g)"
  by (induction t hs srs ps rule: segmentLoop.induct) (auto split: if_splits)

section \<open>Claims about the reconciler\<close>

text \<open>
  C1.  Whatever the two texts and the highlight list are, every highlight returned by
  \<open>reconcileHighlightsAfterEdit\<close> satisfies \<open>0 \<le> start < end \<le> length newText\<close>; a
  highlight whose mapped span is empty is not among the returned ones.
\<close>

theorem reconcile_valid_ranges:
  assumes "h \<in> set (reconcileHighlightsAfterEdit oldText newText oldHighlights)"
  shows "0 \<le> start h \<and> start h < end_h h \<and> end_h h \<le> int (length newText)"
proof -
  from assms obtain g where g: "shiftHighlight oldText newText g = Some h"
    by (auto simp: reconcile_map_filter List.map_filter_def)
  then show ?thesis
    by (auto simp: shiftHighlight_def Let_def clamp_def split: if_splits)
qed

theorem reconcile_valid_ranges_witness:
  "(mkHighlight ''hl_1'' 7 Yellow 4 7)\<lparr> anchor := makeAnchor txt_XY_A_J 4 7 \<rparr>
     \<in> set (reconcileHighlightsAfterEdit txt_A_J txt_XY_A_J [mkHighlight ''hl_1'' 7 Yellow 2 5])
   \<and> (0::int) \<le> 4 \<and> (4::int) < 7 \<and> (7::int) \<le> int (length txt_XY_A_J)"
proof -
  have m: "(mkHighlight ''hl_1'' 7 Yellow 4 7)\<lparr> anchor := makeAnchor txt_XY_A_J 4 7 \<rparr>
     \<in> set (reconcileHighlightsAfterEdit txt_A_J txt_XY_A_J [mkHighlight ''hl_1'' 7 Yellow 2 5])"
    by (simp add: reconcile_eval txt_A_J_def txt_XY_A_J_def)
  from reconcile_valid_ranges [OF m] m show ?thesis
    by (simp add: mkHighlight_def)
qed

text \<open>
  C2, as the code has it.  Let \<open>newText\<close> arise from \<open>oldText = A @ M @ B\<close> by replacing
  \<open>M\<close>, the region \<open>[length A, length A + length M)\<close>, with \<open>M'\<close>, and let every highlight
  satisfy \<open>0 \<le> start < end \<le> length oldText\<close>.  If every highlight ends at or before the
  edit start, or if the two texts first differ at the edit start and every highlight starts
  at or after the edit end and strictly after the edit start, then the reconciler returns
  one highlight per input highlight, in order, with the same id, creation time and colour,
  whose span text in \<open>newText\<close> is the span text of the input highlight in \<open>oldText\<close>.
\<close>

theorem reconcile_preserves_untouched:
  assumes edit: "oldText = A @ M @ B" "newText = A @ M' @ B"
    and valid: "\<forall>h \<in> set hs. 0 \<le> start h \<and> start h < end_h h \<and> end_h h \<le> int (length oldText)"
    and outside:
      "(\<forall>h \<in> set hs. end_h h \<le> int (length A))
       \<or> (prefixLen oldText newText = length A
          \<and> (\<forall>h \<in> set hs. int (length A) < start h \<and> int (length A) + int (length M) \<le> start h))"
  shows "list_all2 (sameSpan oldText newText) hs (reconcileHighlightsAfterEdit oldText newText hs)"
  using outside
proof
  assume a: "\<forall>h \<in> set hs. end_h h \<le> int (length A)"
  let ?f = "\<lambda>h. h\<lparr> start := start h + 0, end_h := end_h h + 0,
                      anchor := makeAnchor newText (start h + 0) (end_h h + 0) \<rparr>"
  have "reconcileHighlightsAfterEdit oldText newText hs = map ?f hs"
    unfolding edit
    by (rule reconcile_all_Some) (use a valid shift_before_edit(1) [of _ A "M @ B" "M' @ B"] in auto)
  moreover have "\<forall>h \<in> set hs. sameSpan oldText newText h (?f h)"
    using a valid shift_before_edit(2) [of _ A "M' @ B" "M @ B"]
    by (auto simp: sameSpan_def edit)
  ultimately show ?thesis
    by (simp add: list_all2_map2 list_all2_same)
next
  assume b: "prefixLen oldText newText = length A
          \<and> (\<forall>h \<in> set hs. int (length A) < start h \<and> int (length A) + int (length M) \<le> start h)"
  define d where "d = int (length M') - int (length M)"
  let ?f = "\<lambda>h. h\<lparr> start := start h + d, end_h := end_h h + d,
                      anchor := makeAnchor newText (start h + d) (end_h h + d) \<rparr>"
  from b have p: "prefixLen (A @ M @ B) (A @ M' @ B) = length A" by (simp add: edit)
  have "reconcileHighlightsAfterEdit oldText newText hs = map ?f hs"
    unfolding edit d_def
    by (rule reconcile_all_Some) (use b valid shift_after_edit(1) [OF p] in \<open>auto simp: edit\<close>)
  moreover have "\<forall>h \<in> set hs. sameSpan oldText newText h (?f h)"
    using b valid shift_after_edit(2) [OF p]
    by (auto simp: sameSpan_def edit d_def)
  ultimately show ?thesis
    by (simp add: list_all2_map2 list_all2_same)
qed

theorem reconcile_preserves_untouched_witness:
  "txt_A_J = [] @ [] @ txt_A_J \<and> txt_XY_A_J = [] @ [0x58, 0x59] @ txt_A_J
   \<and> prefixLen txt_A_J txt_XY_A_J = length ([] :: jsstring)
   \<and> int (length ([] :: jsstring)) < 2
   \<and> list_all2 (sameSpan txt_A_J txt_XY_A_J) [mkHighlight ''hl_1'' 7 Yellow 2 5]
        (reconcileHighlightsAfterEdit txt_A_J txt_XY_A_J [mkHighlight ''hl_1'' 7 Yellow 2 5])"
proof -
  have e: "txt_A_J = [] @ [] @ txt_A_J" "txt_XY_A_J = [] @ [0x58, 0x59] @ txt_A_J"
    by (simp_all add: txt_A_J_def txt_XY_A_J_def)
  have v: "\<forall>h \<in> set [mkHighlight ''hl_1'' 7 Yellow 2 5].
             0 \<le> start h \<and> start h < end_h h \<and> end_h h \<le> int (length txt_A_J)"
    by (simp add: mkHighlight_def txt_A_J_def)
  have p: "prefixLen txt_A_J txt_XY_A_J = length ([] :: jsstring)"
    by (simp add: prefixLen_def commonPrefix.simps txt_A_J_def txt_XY_A_J_def)
  have o: "(\<forall>h \<in> set [mkHighlight ''hl_1'' 7 Yellow 2 5]. end_h h \<le> int (length ([] :: jsstring)))
       \<or> (prefixLen txt_A_J txt_XY_A_J = length ([] :: jsstring)
          \<and> (\<forall>h \<in> set [mkHighlight ''hl_1'' 7 Yellow 2 5].
                int (length ([] :: jsstring)) < start h
                \<and> int (length ([] :: jsstring)) + int (length ([] :: jsstring)) \<le> start h))"
    using p by (simp add: mkHighlight_def)
  from reconcile_preserves_untouched [OF e v o] e p show ?thesis by simp
qed

text \<open>
  C2 as stated fails.  "XaY" arises from "XY" by replacing the empty region \<open>[1, 1)\<close> with
  "a"; the highlight \<open>[1, 2)\<close>, spanning "Y", starts at the edit end.  Offset 1 is not
  shifted (\<open>i \<le> oldMidStart\<close> is tested first) while offset 2 is, so the highlight becomes
  \<open>[1, 3)\<close> and spans "aY".
\<close>

theorem insertion_at_highlight_start:
  "txt_XY = [0x58] @ [] @ [0x59] \<and> txt_XaY = [0x58] @ [0x61] @ [0x59]
   \<and> int (length [0x58 :: code_unit]) + int (length ([] :: jsstring))
        \<le> start (mkHighlight ''hl_1'' 7 Yellow 1 2)
   \<and> reconcileHighlightsAfterEdit txt_XY txt_XaY [mkHighlight ''hl_1'' 7 Yellow 1 2]
        = [(mkHighlight ''hl_1'' 7 Yellow 1 3)\<lparr> anchor := makeAnchor txt_XaY 1 3 \<rparr>]
   \<and> slice txt_XY 1 2 = [0x59]
   \<and> slice txt_XaY 1 3 = [0x61, 0x59]"
  by (simp add: reconcile_eval txt_XY_def txt_XaY_def)

text \<open>
  The second way the claim fails, and the reason for the condition on the common prefix:
  "ababX" arises from "abX" by inserting "ab" at offset 0, before the highlight \<open>[1, 3)\<close>
  spanning "bX"; the reconciler finds the common prefix "ab" and takes the insertion to be
  at offset 2, inside the highlight, which becomes \<open>[1, 5)\<close> and spans "babX".
\<close>

lemma insertion_of_repeated_text:
  "txt_ababX = [] @ [0x61, 0x62] @ txt_abX
   \<and> reconcileHighlightsAfterEdit txt_abX txt_ababX [mkHighlight ''hl_1'' 7 Yellow 1 3]
        = [(mkHighlight ''hl_1'' 7 Yellow 1 5)\<lparr> anchor := makeAnchor txt_ababX 1 5 \<rparr>]
   \<and> slice txt_abX 1 3 = [0x62, 0x58]
   \<and> slice txt_ababX 1 5 = [0x62, 0x61, 0x62, 0x58]"
  by (simp add: reconcile_eval txt_abX_def txt_ababX_def)

text \<open>
  C10.  Reconciling against an unchanged buffer keeps every highlight that satisfies
  \<open>0 \<le> start < end \<le> length t\<close>, in order, with the same start and end (and the same
  id, creation time and colour); only the anchor snapshot is taken again.
\<close>

theorem reconcile_unchanged_buffer:
  assumes "\<forall>h \<in> set hs. 0 \<le> start h \<and> start h < end_h h \<and> end_h h \<le> int (length t)"
  shows "reconcileHighlightsAfterEdit t t hs
           = map (\<lambda>h. h\<lparr> anchor := makeAnchor t (start h) (end_h h) \<rparr>) hs
         \<and> map start (reconcileHighlightsAfterEdit t t hs) = map start hs
         \<and> map end_h (reconcileHighlightsAfterEdit t t hs) = map end_h hs"
proof -
  have "reconcileHighlightsAfterEdit t t hs
           = map (\<lambda>h. h\<lparr> anchor := makeAnchor t (start h) (end_h h) \<rparr>) hs"
    using assms
    by (induction hs) (simp_all add: reconcile_map_filter List.map_filter_def shiftHighlight_same)
  then show ?thesis by (simp add: comp_def)
qed

theorem reconcile_unchanged_buffer_witness:
  "map start (reconcileHighlightsAfterEdit txt_A_J txt_A_J
       [mkHighlight ''hl_1'' 7 Yellow 2 5, mkHighlight ''hl_2'' 9 Blue 0 10]) = [2, 0]
   \<and> map end_h (reconcileHighlightsAfterEdit txt_A_J txt_A_J
       [mkHighlight ''hl_1'' 7 Yellow 2 5, mkHighlight ''hl_2'' 9 Blue 0 10]) = [5, 10]"
proof -
  have v: "\<forall>h \<in> set [mkHighlight ''hl_1'' 7 Yellow 2 5, mkHighlight ''hl_2'' 9 Blue 0 10].
             0 \<le> start h \<and> start h < end_h h \<and> end_h h \<le> int (length txt_A_J)"
    by (simp add: mkHighlight_def txt_A_J_def)
  from reconcile_unchanged_buffer [OF v] show ?thesis
    by (simp add: mkHighlight_def)
qed

text \<open>
  C3, as the code has it.  An offset \<open>i\<close> strictly inside the old edited region is mapped
  to \<open>clamp (newMidStart + (i - oldMidStart)) newMidStart newMidEnd\<close>, which is
  \<open>min i newMidEnd\<close>: the offset keeps its position when that position still lies in the
  new edited region and is pinned to \<open>newMidEnd\<close> otherwise.  In all cases the result lies
  within \<open>[newMidStart, newMidEnd]\<close>.
\<close>

theorem shiftIndex_inside:
  assumes "oldMidStart oldText newText < i" "i < oldMidEnd oldText newText"
  shows "shiftIndex oldText newText i = min i (newMidEnd oldText newText)
         \<and> newMidStart oldText newText \<le> shiftIndex oldText newText i
         \<and> shiftIndex oldText newText i \<le> newMidEnd oldText newText"
  using assms mid_order [of oldText newText]
  by (auto simp: shiftIndex_def clamp_def Let_def oldMidStart_def newMidStart_def)

theorem shiftIndex_inside_witness:
  "oldMidStart [1, 2, 3, 4 :: code_unit] [1, 5, 4] < 2
   \<and> 2 < oldMidEnd [1, 2, 3, 4 :: code_unit] [1, 5, 4]
   \<and> shiftIndex [1, 2, 3, 4 :: code_unit] [1, 5, 4] 2 = 2
   \<and> newMidEnd [1, 2, 3, 4 :: code_unit] [1, 5, 4] = 2"
proof -
  have a: "oldMidStart [1, 2, 3, 4 :: code_unit] [1, 5, 4] < 2"
    by (simp add: reconcile_eval)
  have b: "2 < oldMidEnd [1, 2, 3, 4 :: code_unit] [1, 5, 4]"
    by (simp add: reconcile_eval)
  have c: "newMidEnd [1, 2, 3, 4 :: code_unit] [1, 5, 4] = 2"
    by (simp add: reconcile_eval)
  from shiftIndex_inside [OF a b] a b c show ?thesis by simp
qed

text \<open>
  C3 as stated fails: with old text \<open>[1, 2, 3, 4]\<close> and new text \<open>[1, 5, 6, 4]\<close> the edited
  region is \<open>[1, 3)\<close> in both, offset 2 lies strictly inside it and is mapped to 2, which is
  neither \<open>newMidStart = 1\<close> nor \<open>newMidEnd = 3\<close>.
\<close>

theorem shiftIndex_not_pinned:
  "oldMidStart [1, 2, 3, 4 :: code_unit] [1, 5, 6, 4] < 2
   \<and> 2 < oldMidEnd [1, 2, 3, 4 :: code_unit] [1, 5, 6, 4]
   \<and> newMidStart [1, 2, 3, 4 :: code_unit] [1, 5, 6, 4] = 1
   \<and> newMidEnd [1, 2, 3, 4 :: code_unit] [1, 5, 6, 4] = 3
   \<and> shiftIndex [1, 2, 3, 4 :: code_unit] [1, 5, 6, 4] 2 = 2"
  by (simp add: reconcile_eval)

section \<open>Claims about the merge engine\<close>

lemma length_txt_A_J: "int (length txt_A_J) = 10"
  by (simp add: txt_A_J_def)

lemmas apply_eval =
  onApplyHighlight_def sortHighlights_def mkHighlight_def clamp_def length_txt_A_J
  Let_def less_eq_prod_def less_prod_def

lemma apply_example_first:
  "onApplyHighlight txt_A_J [mkHighlight ''hl_1'' 7 Pink 0 6] 5 8 (Some Pink) newId now
     = [(mkHighlight newId now Pink 0 8)\<lparr> anchor := makeAnchor txt_A_J 0 8 \<rparr>]"
  by (simp add: apply_eval)

lemma apply_example_second:
  "onApplyHighlight txt_A_J [(mkHighlight ''hl_2'' 9 Pink 0 8)\<lparr> anchor := makeAnchor txt_A_J 0 8 \<rparr>]
       5 8 (Some Pink) newId now
     = [(mkHighlight newId now Pink 0 8)\<lparr> anchor := makeAnchor txt_A_J 0 8 \<rparr>]"
  by (simp add: apply_eval)

text \<open>
  C4.  A same-colour highlight that only touches the new range (\<open>h.end = s\<close> or
  \<open>h.start = e2\<close>) is not merged by the code, because the test of lines 608-610 counts
  only ranges that share an offset with the new one; the comment above that test calls it
  inclusive.  With a pink highlight \<open>[0, 5)\<close> on a text of length 10, applying pink to
  \<open>[5, 10)\<close> gives two pink highlights, \<open>[0, 5)\<close> and \<open>[5, 10)\<close>, not one highlight
  \<open>[0, 10)\<close>.
\<close>

theorem adjacent_same_color_not_merged:
  "onApplyHighlight txt_A_J [mkHighlight ''hl_1'' 7 Pink 0 5] 5 10 (Some Pink) ''hl_2'' 9
     = [mkHighlight ''hl_1'' 7 Pink 0 5,
        (mkHighlight ''hl_2'' 9 Pink 5 10)\<lparr> anchor := makeAnchor txt_A_J 5 10 \<rparr>]"
  by (simp add: apply_eval)

text \<open>
  C5, as the code has it.  Applying the same \<open>(start, end, color)\<close> a second time either
  changes nothing, or yields exactly the list that one application carrying the second
  call's fresh id and timestamp yields; in both cases the two lists agree in order and in
  every field except the id and creation time of the merged highlight.
\<close>

theorem apply_twice:
  "(onApplyHighlight t (onApplyHighlight t existing st en col id1 now1) st en col id2 now2
      = onApplyHighlight t existing st en col id1 now1
    \<or> onApplyHighlight t (onApplyHighlight t existing st en col id1 now1) st en col id2 now2
      = onApplyHighlight t existing st en col id2 now2)
   \<and> map forget (onApplyHighlight t (onApplyHighlight t existing st en col id1 now1) st en col id2 now2)
      = map forget (onApplyHighlight t existing st en col id1 now1)"
proof -
  let ?c = "chosen col" and ?s = "clamp (min st en) 0 (int (length t))"
    and ?e2 = "clamp (max st en) 0 (int (length t))"
  let ?R1 = "onApplyHighlight t existing st en col id1 now1"
  let ?R2 = "onApplyHighlight t existing st en col id2 now2"
  let ?T = "onApplyHighlight t ?R1 st en col id2 now2"
  let ?K = "filter (\<lambda>h. \<not> overlapsRequest ?c ?s ?e2 h) existing"
  have d: "?T = ?R1 \<or> ?T = ?R2"
  proof (cases "?e2 \<le> ?s \<or> alreadyExists existing ?c ?s ?e2")
    case True
    then have "?R1 = existing" by (auto simp: onApplyHighlight_unfold Let_def)
    moreover from True have "onApplyHighlight t existing st en col id2 now2 = existing"
      by (auto simp: onApplyHighlight_unfold Let_def)
    ultimately show ?thesis by simp
  next
    case False
    then have se: "?s < ?e2" by simp
    from False have R1: "?R1 = sortHighlights (?K @ [mergedHighlight t existing ?c ?s ?e2 id1 now1])"
      by (simp add: onApplyHighlight_unfold Let_def)
    from False have R2: "?R2 = sortHighlights (?K @ [mergedHighlight t existing ?c ?s ?e2 id2 now2])"
      by (simp add: onApplyHighlight_unfold Let_def)
    show ?thesis
    proof (cases "alreadyExists ?R1 ?c ?s ?e2")
      case True
      then have "?T = ?R1" by (simp add: onApplyHighlight_unfold [of t ?R1] Let_def)
      then show ?thesis by simp
    next
      case nex: False
      with se have "?T = sortHighlights (filter (\<lambda>h. \<not> overlapsRequest ?c ?s ?e2 h) ?R1
                         @ [mergedHighlight t ?R1 ?c ?s ?e2 id2 now2])"
        by (simp add: onApplyHighlight_unfold [of t ?R1] Let_def)
      also have "\<dots> = sortHighlights (sortHighlights ?K @ [mergedHighlight t existing ?c ?s ?e2 id2 now2])"
        unfolding R1 by (simp only: filter_keep_result [OF se] merged_again [OF se])
      also have "\<dots> = ?R2"
        unfolding R2 sortHighlights_def by (rule sort_key_sorted_prefix)
      finally show ?thesis by simp
    qed
  qed
  from d forget_once [of t existing st en col id2 now2 id1 now1] show ?thesis by auto
qed

theorem apply_twice_witness:
  "onApplyHighlight txt_A_J
       (onApplyHighlight txt_A_J [mkHighlight ''hl_1'' 7 Pink 0 6] 5 8 (Some Pink) ''hl_2'' 9)
       5 8 (Some Pink) ''hl_3'' 11
     = onApplyHighlight txt_A_J [mkHighlight ''hl_1'' 7 Pink 0 6] 5 8 (Some Pink) ''hl_3'' 11
   \<and> map forget (onApplyHighlight txt_A_J
       (onApplyHighlight txt_A_J [mkHighlight ''hl_1'' 7 Pink 0 6] 5 8 (Some Pink) ''hl_2'' 9)
       5 8 (Some Pink) ''hl_3'' 11)
     = map forget (onApplyHighlight txt_A_J [mkHighlight ''hl_1'' 7 Pink 0 6] 5 8 (Some Pink) ''hl_2'' 9)"
  using apply_twice [of txt_A_J "[mkHighlight ''hl_1'' 7 Pink 0 6]" 5 8 "Some Pink" "''hl_2''" 9 "''hl_3''" 11]
  by (simp add: apply_example_first apply_example_second)

text \<open>
  C5 as stated fails.  With a pink highlight \<open>[0, 6)\<close>, applying pink to \<open>[5, 8)\<close> gives one
  pink highlight \<open>[0, 8)\<close> with the first call's id and timestamp; applying pink to \<open>[5, 8)\<close>
  again replaces it by a highlight \<open>[0, 8)\<close> with the second call's id and timestamp.
\<close>

theorem apply_twice_differs:
  "onApplyHighlight txt_A_J
       (onApplyHighlight txt_A_J [mkHighlight ''hl_1'' 7 Pink 0 6] 5 8 (Some Pink) ''hl_2'' 9)
       5 8 (Some Pink) ''hl_3'' 11
     \<noteq> onApplyHighlight txt_A_J [mkHighlight ''hl_1'' 7 Pink 0 6] 5 8 (Some Pink) ''hl_2'' 9"
  unfolding apply_example_first apply_example_second by (simp add: mkHighlight_def)

text \<open>
  C6.  Every highlight whose colour differs from the requested one is in the result
  unchanged, as the same record; and the highlights of other colours in the result are
  exactly those of the input, with their multiplicities.
\<close>

theorem other_colors_untouched:
  "(\<forall>h \<in> set existing. color h \<noteq> chosen col \<longrightarrow>
        h \<in> set (onApplyHighlight t existing st en col newId now))
   \<and> mset (filter (\<lambda>h. color h \<noteq> chosen col) (onApplyHighlight t existing st en col newId now))
       = mset (filter (\<lambda>h. color h \<noteq> chosen col) existing)"
proof -
  have m: "mset (filter (\<lambda>h. color h \<noteq> chosen col) (onApplyHighlight t existing st en col newId now))
       = mset (filter (\<lambda>h. color h \<noteq> chosen col) existing)"
  proof -
    have "filter (\<lambda>h. color h \<noteq> chosen col) (sortHighlights (filter (\<lambda>h. \<not> overlapsRequest (chosen col) s e2 h) existing
              @ [mergedHighlight t existing (chosen col) s e2 newId now]))
          = sortHighlights (filter (\<lambda>h. color h \<noteq> chosen col) existing)" for s e2
      by (simp add: sortHighlights_def filter_sort filter_other_keep)
    then show ?thesis
      by (simp add: onApplyHighlight_unfold Let_def del: mset_filter)
  qed
  have "h \<in> set (onApplyHighlight t existing st en col newId now)"
    if "h \<in> set existing" "color h \<noteq> chosen col" for h
  proof -
    from that have "h \<in> set (filter (\<lambda>h. color h \<noteq> chosen col) existing)" by simp
    then have "h \<in># mset (filter (\<lambda>h. color h \<noteq> chosen col) existing)" by (simp del: mset_filter)
    with m have "h \<in># mset (filter (\<lambda>h. color h \<noteq> chosen col)
                      (onApplyHighlight t existing st en col newId now))" by simp
    then show ?thesis by simp
  qed
  with m show ?thesis by blast
qed

theorem other_colors_untouched_witness:
  "mkHighlight ''hl_1'' 7 Blue 2 5 \<in> set [mkHighlight ''hl_1'' 7 Blue 2 5]
   \<and> color (mkHighlight ''hl_1'' 7 Blue 2 5) \<noteq> chosen (Some Pink)
   \<and> mkHighlight ''hl_1'' 7 Blue 2 5
       \<in> set (onApplyHighlight txt_A_J [mkHighlight ''hl_1'' 7 Blue 2 5] 2 5 (Some Pink) ''hl_2'' 9)"
proof -
  have a: "mkHighlight ''hl_1'' 7 Blue 2 5 \<in> set [mkHighlight ''hl_1'' 7 Blue 2 5]" by simp
  have b: "color (mkHighlight ''hl_1'' 7 Blue 2 5) \<noteq> chosen (Some Pink)"
    by (simp add: mkHighlight_def chosen_def)
  from other_colors_untouched [of "[mkHighlight ''hl_1'' 7 Blue 2 5]" "Some Pink" txt_A_J 2 5 "''hl_2''" 9] a b
  show ?thesis by blast
qed

text \<open>
  C9.  If no two entries of the highlight list have the same colour and strictly
  overlapping ranges, the same holds of the list \<open>onApplyHighlight\<close> returns, whatever the
  requested start, end and colour are.
\<close>

theorem apply_preserves_no_overlap:
  assumes "noSameColorOverlap existing"
  shows "noSameColorOverlap (onApplyHighlight t existing st en col newId now)"
proof -
  let ?c = "chosen col" and ?s = "clamp (min st en) 0 (int (length t))"
    and ?e2 = "clamp (max st en) 0 (int (length t))"
  have "noSameColorOverlap (sortHighlights (filter (\<lambda>h. \<not> overlapsRequest ?c ?s ?e2 h) existing
            @ [mergedHighlight t existing ?c ?s ?e2 newId now]))"
    if "?s < ?e2"
    using assms that
    by (simp add: sortHighlights_def noSameColorOverlap_sort noSameColorOverlap_snoc
        noSameColorOverlap_filter merged_no_clash)
  with assms show ?thesis
    by (simp add: onApplyHighlight_unfold Let_def)
qed


theorem apply_preserves_no_overlap_witness:
  "noSameColorOverlap [mkHighlight ''hl_1'' 7 Pink 0 6, mkHighlight ''hl_2'' 8 Pink 8 10]
   \<and> noSameColorOverlap
       (onApplyHighlight txt_A_J [mkHighlight ''hl_1'' 7 Pink 0 6, mkHighlight ''hl_2'' 8 Pink 8 10]
          5 9 (Some Pink) ''hl_3'' 11)"
proof -
  have a: "noSameColorOverlap [mkHighlight ''hl_1'' 7 Pink 0 6, mkHighlight ''hl_2'' 8 Pink 8 10]"
    by (simp add: noSameColorOverlap_def sameColorOverlap_def rangesOverlap_def mkHighlight_def)
  from apply_preserves_no_overlap [OF a] a show ?thesis by simp
qed

section \<open>Claims about the render segmenter\<close>

lemmas render_eval =
  renderedTranscript_def normalizeHighlights_def points_def boundsList_def
  topHighlightFor_def searchFor_def mkHighlight_def clamp_def Let_def txt_A_J_def slice_def
  less_eq_prod_def less_prod_def

text \<open>
  C7.  For every text, highlight list and list of search matches, the segments partition
  \<open>[0, length txt)\<close> from left to right without gap or overlap, each carries the slice of
  the text at its range, their start offsets strictly ascend, and the concatenation of the
  slices is the text.  On a non-empty text every segment is non-empty.
\<close>

theorem segmenter_total_coverage:
  "concat (map seg_slice (renderedTranscript txt highlights matches)) = txt
   \<and> tiles txt 0 (int (length txt)) (renderedTranscript txt highlights matches)
   \<and> sorted_wrt (<) (map seg_a (renderedTranscript txt highlights matches))
   \<and> (txt \<noteq> [] \<longrightarrow> (\<forall>g \<in> set (renderedTranscript txt highlights matches). seg_a g < seg_b g))"
proof -
  let ?len = "int (length txt)"
  let ?hs = "normalizeHighlights ?len highlights"
  let ?srs = "collectSearchRanges ?len matches 0"
  let ?pts = "points ?len ?hs ?srs"
  show ?thesis
  proof (cases "length ?pts \<le> 2")
    case True
    then have "renderedTranscript txt highlights matches
                 = [\<lparr> seg_a = 0, seg_b = ?len, seg_slice = txt,
                      seg_highlight = None, seg_search = None \<rparr>]"
      by (simp add: renderedTranscript_def Let_def)
    then show ?thesis by (simp add: slice_whole)
  next
    case False
    then have r: "renderedTranscript txt highlights matches = segmentLoop txt ?hs ?srs ?pts"
      by (simp add: renderedTranscript_def Let_def)
    have rng: "\<forall>x \<in> set ?pts. 0 \<le> x \<and> x \<le> ?len"
      unfolding points_props
      by (rule boundsList_range)
         (use normalizeHighlights_range [of _ ?len highlights]
              collectSearchRanges_range [of _ ?len matches 0] in auto)
    from False obtain a rest where pts: "?pts = a # rest" by (cases ?pts) auto
    have s: "sorted (a # rest)" "distinct (a # rest)"
      using points_props(1,2) [of ?len ?hs ?srs] by (simp_all add: pts)
    have m: "0 \<in> set (a # rest)" "?len \<in> set (a # rest)"
      using boundsList_ends [of ?len ?hs ?srs] points_props(3) [of ?len ?hs ?srs]
      by (simp_all add: pts)
    from s m(1) rng have a0: "a = 0" by (auto simp: pts)
    from rng have le: "\<forall>x \<in> set (a # rest). x \<le> ?len" by (simp add: pts)
    have a0': "0 \<le> a" by (simp add: a0)
    note t = segmentLoop_tiles [OF s a0' le m(2), of ?hs ?srs]
    from t have "sorted_wrt (<) (map seg_a (segmentLoop txt ?hs ?srs (a # rest)))"
      using tiles_ascending by blast
    with t show ?thesis
      by (simp add: r pts a0 slice_whole)
  qed
qed

theorem segmenter_total_coverage_witness:
  "txt_A_J \<noteq> []
   \<and> concat (map seg_slice (renderedTranscript txt_A_J
        [mkHighlight ''hl_1'' 7 Yellow 2 5, mkHighlight ''hl_2'' 9 Blue 4 8] [(3, 3)])) = txt_A_J
   \<and> map (\<lambda>g. (seg_a g, seg_b g)) (renderedTranscript txt_A_J
        [mkHighlight ''hl_1'' 7 Yellow 2 5, mkHighlight ''hl_2'' 9 Blue 4 8] [(3, 3)])
      = [(0, 2), (2, 3), (3, 4), (4, 5), (5, 6), (6, 8), (8, 10)]"
proof -
  have a: "txt_A_J \<noteq> []" by (simp add: txt_A_J_def)
  have b: "map (\<lambda>g. (seg_a g, seg_b g)) (renderedTranscript txt_A_J
        [mkHighlight ''hl_1'' 7 Yellow 2 5, mkHighlight ''hl_2'' 9 Blue 4 8] [(3, 3)])
      = [(0, 2), (2, 3), (3, 4), (4, 5), (5, 6), (6, 8), (8, 10)]"
    by (simp add: render_eval)
  from segmenter_total_coverage [of txt_A_J
        "[mkHighlight ''hl_1'' 7 Yellow 2 5, mkHighlight ''hl_2'' 9 Blue 4 8]" "[(3, 3)]"] a b
  show ?thesis by blast
qed

text \<open>
  C8.  A segment covered by a highlight is to be styled by the covering highlight with the
  most recent creation time.  In the loop this is what \<open>topHighlightFor\<close> does (lemmas
  \<open>segmentLoop_marks\<close>, \<open>topHighlightFor_Some\<close> and \<open>topHighlightFor_None\<close>), but the early
  return of line 2554 is taken whenever the boundary set is just \<open>{0, length}\<close>, also when
  a highlight covers the whole text: the text "ABC" with a yellow highlight \<open>[0, 3)\<close> is
  returned as one plain segment, although \<open>topHighlightFor\<close> finds the highlight for
  \<open>[0, 3)\<close>.
\<close>

theorem whole_text_highlight_not_rendered:
  "renderedTranscript [0x41, 0x42, 0x43] [mkHighlight ''hl_1'' 7 Yellow 0 3] []
     = [\<lparr> seg_a = 0, seg_b = 3, seg_slice = [0x41, 0x42, 0x43],
          seg_highlight = None, seg_search = None \<rparr>]
   \<and> topHighlightFor (normalizeHighlights 3 [mkHighlight ''hl_1'' 7 Yellow 0 3]) 0 3
     = Some (mkHighlight ''hl_1'' 7 Yellow 0 3)"
  by (simp add: renderedTranscript_def normalizeHighlights_def points_def boundsList_def
      topHighlightFor_def mkHighlight_def clamp_def Let_def)

end
